theory Spec2Isabelle
  imports Complex_Main "HOL-Library.AList"
begin

section \<open>Vehicle to cell-site association (script\_python/sites\_association.py)\<close>

text \<open>
  The script drives a traffic simulation step by step and keeps, for every live vehicle,
  the cell site it is associated with. Python dictionaries keep insertion order, so both
  the site registry \<open>poi_pos\<close> and the tracker \<open>vehicles\<close> are association lists with
  the dictionary operations of the library theory AList: \<open>AList.update\<close> overwrites in
  place or appends, \<open>AList.delete\<close> removes, \<open>map_of\<close> looks up. Coordinates and
  distances are real numbers; exceptions are values of type \<open>error\<close>.
\<close>

subsection \<open>Data\<close>

type_synonym coord = "real \<times> real"
type_synonym poi_dict = "(string \<times> coord) list"
type_synonym veh_dict = "(string \<times> string option) list"

datatype error =
    TypeError string
  | ZeroDivisionError
  | KeyError string
  | ValueError

text \<open>The second component of the running pair \<open>new_site\<close>: \<open>float('inf')\<close> or a distance.\<close>

datatype bound = Inf | Fin real

fun dist_less :: "real \<Rightarrow> bound \<Rightarrow> bool" where
  "dist_less d Inf = True"
| "dist_less d (Fin e) = (d < e)"

fun bound_le :: "bound \<Rightarrow> real \<Rightarrow> bool" where
  "bound_le Inf m = False"
| "bound_le (Fin e) m = (e \<le> m)"

subsection \<open>The resolver: \<open>new_cell_site\<close> and \<open>check_connection\<close>\<close>

text \<open>
  Modelled from the spec: \<open>libsumo.simulation.getDistance2D\<close> belongs to the simulation
  engine, not to the repository; the specification fixes it as the Euclidean planar
  distance between \<open>(x1, y1)\<close> and \<open>(x2, y2)\<close>.
\<close>

definition getDistance2D :: "real \<Rightarrow> real \<Rightarrow> real \<Rightarrow> real \<Rightarrow> real" where
  "getDistance2D x1 y1 x2 y2 = sqrt ((x1 - x2)\<^sup>2 + (y1 - y2)\<^sup>2)"

text \<open>The \<open>for id, poi_coord in poi_pos.items()\<close> loop, with \<open>new_site\<close> as accumulator.\<close>

fun new_cell_site_loop ::
  "poi_dict \<Rightarrow> coord \<Rightarrow> string option \<times> bound \<Rightarrow> string option \<times> bound" where
  "new_cell_site_loop [] veh_coord new_site = new_site"
| "new_cell_site_loop ((ident, poi_coord) # rest) veh_coord new_site =
     (let d = getDistance2D (fst poi_coord) (snd poi_coord) (fst veh_coord) (snd veh_coord)
      in if dist_less d (snd new_site)
         then new_cell_site_loop rest veh_coord (Some ident, Fin d)
         else new_cell_site_loop rest veh_coord new_site)"

definition new_cell_site :: "poi_dict \<Rightarrow> coord \<Rightarrow> real \<Rightarrow> string option" where
  "new_cell_site poi_pos veh_coord max_dist =
     (let new_site = new_cell_site_loop poi_pos veh_coord (None, Inf)
      in if bound_le (snd new_site) max_dist then fst new_site else None)"

definition check_connection :: "coord \<Rightarrow> coord \<Rightarrow> real \<Rightarrow> bool" where
  "check_connection poi_coord veh_coord d =
     (getDistance2D (fst poi_coord) (snd poi_coord) (fst veh_coord) (snd veh_coord) > d)"

text \<open>
  The brute-force reading of the specification's resolver, to compare \<open>new_cell_site\<close>
  with: the smallest distance over the whole registry, and the first entry that has it.
\<close>

definition site_dist :: "coord \<Rightarrow> string \<times> coord \<Rightarrow> real" where
  "site_dist veh_coord entry =
     getDistance2D (fst (snd entry)) (snd (snd entry)) (fst veh_coord) (snd veh_coord)"

definition min_dist :: "poi_dict \<Rightarrow> coord \<Rightarrow> real" where
  "min_dist poi_pos veh_coord = Min (site_dist veh_coord ` set poi_pos)"

definition nearest_in_range :: "poi_dict \<Rightarrow> coord \<Rightarrow> real \<Rightarrow> string option" where
  "nearest_in_range poi_pos veh_coord max_dist =
     (if poi_pos = [] then None
      else if min_dist poi_pos veh_coord \<le> max_dist
      then map_option fst
             (find (\<lambda>entry. site_dist veh_coord entry = min_dist poi_pos veh_coord) poi_pos)
      else None)"

subsection \<open>Command line and simulation engine\<close>

text \<open>
  The parsed command line. \<open>cell_sites\<close>, \<open>input\<close> and \<open>sumo_net\<close> have no default and
  are \<open>None\<close> when the option is absent.
\<close>

record args =
  cell_sites :: "int option"
  time :: int
  step :: int
  distance :: int
  input :: "string option"
  sumo_net :: "string option"

text \<open>What the engine reports after one \<open>simulationStep\<close>.\<close>

record step_events =
  getArrivedIDList :: "string list"
  getEndingTeleportIDList :: "string list"
  getDepartedIDList :: "string list"
  getAllSubscriptionResults :: "(string \<times> coord) list"

text \<open>
  Everything the script obtains from outside the repository, as parameters.
  \<open>loaded_pois\<close> are the points of interest the simulation configuration already
  contains when \<open>libsumo.start\<close> returns; \<open>read_csv path\<close> gives, per row of the site
  file, \<open>(str(row[1]), row[2], row[3])\<close>; \<open>convertLonLat2XY net lon lat\<close> is the
  projection of the network read from \<open>net\<close>; \<open>getNetBoundary\<close> is the pair of corners
  of the network; \<open>random_draw k\<close> is the entropy consumed by the \<open>k\<close>-th call of
  \<open>random.randint\<close>; \<open>events n\<close> is what the engine reports in the \<open>n\<close>-th iteration.
\<close>

record env =
  loaded_pois :: poi_dict
  read_csv :: "string \<Rightarrow> (string \<times> real \<times> real) list"
  convertLonLat2XY :: "string \<Rightarrow> real \<Rightarrow> real \<Rightarrow> coord"
  getNetBoundary :: "coord \<times> coord"
  random_draw :: "nat \<Rightarrow> nat"
  events :: "nat \<Rightarrow> step_events"

text \<open>Python's \<open>int(x)\<close> on a float truncates toward zero.\<close>

definition py_int :: "real \<Rightarrow> int" where
  "py_int x = (if 0 \<le> x then \<lfloor>x\<rfloor> else \<lceil>x\<rceil>)"

text \<open>
  \<open>random.randint(a, b)\<close>: some integer of the closed range, \<open>ValueError\<close> on an empty
  range. The draw \<open>r\<close> selects the element.
\<close>

definition randint :: "int \<Rightarrow> int \<Rightarrow> nat \<Rightarrow> error + int" where
  "randint a b r = (if a \<le> b then Inr (a + int (r mod nat (b - a + 1))) else Inl ValueError)"

text \<open>\<open>str(i)\<close> for the non-negative integers of \<open>range\<close>: the decimal numeral.\<close>

definition digit_char :: "nat \<Rightarrow> char" where
  "digit_char n = char_of (48 + n)"

fun str :: "nat \<Rightarrow> string" where
  "str n = (if n < 10 then [digit_char n] else str (n div 10) @ [digit_char (n mod 10)])"

declare str.simps [simp del]

text \<open>
  Modelled from the spec: \<open>libsumo.poi.add\<close> registers a marker in the engine's
  container. A site identifier is unique within a run: the container holds one marker
  per id, and a second marker with an id already present is not stored.
\<close>

definition poi_add :: "string \<Rightarrow> real \<Rightarrow> real \<Rightarrow> poi_dict \<Rightarrow> poi_dict" where
  "poi_add ident x y pois =
     (if ident \<in> fst ` set pois then pois else pois @ [(ident, (x, y))])"

subsection \<open>Building the registry (lines 134 to 162 of \<open>main\<close>)\<close>

definition msg_net :: string where
  "msg_net = ''You need to provide the sumo net file''"

definition msg_source :: string where
  "msg_source = ''You need to provide at least one argument between the input sites file and the number of sites to generate''"

text \<open>Truthiness of an optional string and of an optional integer.\<close>

definition truthy_str :: "string option \<Rightarrow> bool" where
  "truthy_str v = (case v of None \<Rightarrow> False | Some s \<Rightarrow> s \<noteq> [])"

definition truthy_int :: "int option \<Rightarrow> bool" where
  "truthy_int v = (case v of None \<Rightarrow> False | Some n \<Rightarrow> n \<noteq> 0)"

text \<open>The \<open>for row in sites.itertuples()\<close> loop.\<close>

fun add_file_sites :: "(real \<Rightarrow> real \<Rightarrow> coord) \<Rightarrow> (string \<times> real \<times> real) list \<Rightarrow> poi_dict \<Rightarrow> poi_dict" where
  "add_file_sites conv [] pois = pois"
| "add_file_sites conv ((ident, lat, lon) # rows) pois =
     (let xy = conv lon lat
      in add_file_sites conv rows (poi_add ident (fst xy) (snd xy) pois))"

text \<open>
  The \<open>for i in range(args.cell_sites)\<close> loop over the indices \<open>is\<close>, threading the
  engine's markers and the rows appended to \<open>output_sites_pos.csv\<close>.
\<close>

fun add_random_sites ::
  "(nat \<Rightarrow> nat) \<Rightarrow> int \<Rightarrow> int \<Rightarrow> int \<Rightarrow> int \<Rightarrow> nat list \<Rightarrow>
   poi_dict \<times> (string \<times> int \<times> int) list \<Rightarrow> error + poi_dict \<times> (string \<times> int \<times> int) list" where
  "add_random_sites rnd x_min x_max y_min y_max [] acc = Inr acc"
| "add_random_sites rnd x_min x_max y_min y_max (i # is) acc =
     (case randint x_min x_max (rnd (2 * i)) of
        Inl e \<Rightarrow> Inl e
      | Inr x \<Rightarrow>
          (case randint y_min y_max (rnd (2 * i + 1)) of
             Inl e \<Rightarrow> Inl e
           | Inr y \<Rightarrow>
               add_random_sites rnd x_min x_max y_min y_max is
                 (poi_add (str i) (real_of_int x) (real_of_int y) (fst acc),
                  snd acc @ [(str i, x, y)])))"

text \<open>
  \<open>setup_sites\<close> returns the registry \<open>poi_pos\<close> (one entry per marker the engine
  holds) and the data rows of \<open>output_sites_pos.csv\<close>.
\<close>

definition setup_sites :: "args \<Rightarrow> env \<Rightarrow> error + poi_dict \<times> (string \<times> int \<times> int) list" where
  "setup_sites a e =
     (if truthy_str (input a) then
        (case sumo_net a of
           None \<Rightarrow> Inl (TypeError msg_net)
         | Some net \<Rightarrow>
             Inr (add_file_sites (convertLonLat2XY e net) (read_csv e (the (input a)))
                    (loaded_pois e), []))
      else if truthy_int (cell_sites a) then
        (let x_y_min = fst (getNetBoundary e); x_y_max = snd (getNetBoundary e);
             x_max = py_int (fst x_y_max); y_max = py_int (snd x_y_max);
             x_min = py_int (fst x_y_min); y_min = py_int (snd x_y_min)
         in add_random_sites (random_draw e) x_min x_max y_min y_max
              [0 ..< nat (the (cell_sites a))] (loaded_pois e, []))
      else Inl (TypeError msg_source))"

subsection \<open>The association loop (lines 164 to 201 of \<open>main\<close>)\<close>

record state =
  vehicles :: veh_dict
  output_csv :: "(int \<times> string \<times> string option) list"
  printed :: "string list"

definition msg_arrived :: string where
  "msg_arrived = ''Error during the removal of the arrived vehicles''"

definition msg_teleported :: string where
  "msg_teleported = ''Error during the removal of the teleported vehicles''"

text \<open>\<open>del vehicles[veh_id]\<close> raises \<open>KeyError\<close> on a missing key.\<close>

definition del_item :: "veh_dict \<Rightarrow> string \<Rightarrow> error + veh_dict" where
  "del_item vs veh_id =
     (if veh_id \<in> fst ` set vs then Inr (AList.delete veh_id vs) else Inl (KeyError veh_id))"

text \<open>The \<open>try: del ... except: print(msg)\<close> statement.\<close>

definition try_del :: "string \<Rightarrow> string \<Rightarrow> state \<Rightarrow> state" where
  "try_del msg veh_id s =
     (case del_item (vehicles s) veh_id of
        Inr vs \<Rightarrow> s\<lparr>vehicles := vs\<rparr>
      | Inl err \<Rightarrow> s\<lparr>printed := printed s @ [msg]\<rparr>)"

definition delete_vehicles :: "string \<Rightarrow> string list \<Rightarrow> state \<Rightarrow> state" where
  "delete_vehicles msg ids s = fold (try_del msg) ids s"

text \<open>
  One iteration of the loop over the subscription results (lines 188 to 198). The
  condition is \<open>not poi_id or (check and check_connection(poi_pos[poi_id], ...))\<close>:
  \<open>not poi_id\<close> holds for \<open>None\<close>, whether the key is absent or maps to \<open>None\<close>, and for
  the empty string; \<open>poi_pos[poi_id]\<close> is only evaluated after it and \<open>check\<close>.
\<close>

definition assign_vehicle ::
  "poi_dict \<Rightarrow> bool \<Rightarrow> real \<Rightarrow> veh_dict \<Rightarrow> string \<times> coord \<Rightarrow> error + veh_dict" where
  "assign_vehicle poi_pos check max_d vs kv =
     (let key = fst kv; coordinates_veh = snd kv;
          poi_id = (case map_of vs key of None \<Rightarrow> None | Some v \<Rightarrow> v);
          resolved = AList.update key (new_cell_site poi_pos coordinates_veh max_d) vs
      in case poi_id of
           None \<Rightarrow> Inr resolved
         | Some sid \<Rightarrow>
             if sid = [] then Inr resolved
             else if check then
               (case map_of poi_pos sid of
                  None \<Rightarrow> Inl (KeyError sid)
                | Some poi_coord \<Rightarrow>
                    if check_connection poi_coord coordinates_veh max_d
                    then Inr resolved else Inr vs)
             else Inr vs)"

fun assign_all ::
  "poi_dict \<Rightarrow> bool \<Rightarrow> real \<Rightarrow> (string \<times> coord) list \<Rightarrow> veh_dict \<Rightarrow> error + veh_dict" where
  "assign_all poi_pos check max_d [] vs = Inr vs"
| "assign_all poi_pos check max_d (kv # rest) vs =
     (case assign_vehicle poi_pos check max_d vs kv of
        Inl e \<Rightarrow> Inl e
      | Inr vs' \<Rightarrow> assign_all poi_pos check max_d rest vs')"

definition write_positions :: "veh_dict \<Rightarrow> int \<Rightarrow> (int \<times> string \<times> string option) list" where
  "write_positions vs stp = map (\<lambda>(veh_id, cell_site). (stp, veh_id, cell_site)) vs"

text \<open>
  The body of \<open>for step in range(args.time+1)\<close>. \<open>step % args.step\<close> raises
  \<open>ZeroDivisionError\<close> for a zero divisor and is the floored remainder otherwise, as
  \<open>mod\<close> on \<open>int\<close> is. Subscribing the departed vehicles changes the engine only.
\<close>

definition loop_body :: "args \<Rightarrow> poi_dict \<Rightarrow> step_events \<Rightarrow> int \<Rightarrow> state \<Rightarrow> error + state" where
  "loop_body a poi_pos ev stp s =
     (if step a = 0 then Inl ZeroDivisionError
      else
        let check = (stp mod step a = 0);
            s1 = delete_vehicles msg_arrived (getArrivedIDList ev) s;
            s2 = delete_vehicles msg_teleported (getEndingTeleportIDList ev) s1
        in case assign_all poi_pos check (real_of_int (distance a))
                  (getAllSubscriptionResults ev) (vehicles s2) of
             Inl err \<Rightarrow> Inl err
           | Inr vs \<Rightarrow>
               Inr (s2\<lparr>vehicles := vs,
                       output_csv := (if check then output_csv s2 @ write_positions vs stp
                                  else output_csv s2)\<rparr>))"

fun run_steps :: "args \<Rightarrow> poi_dict \<Rightarrow> (nat \<Rightarrow> step_events) \<Rightarrow> nat list \<Rightarrow> state \<Rightarrow> error + state" where
  "run_steps a poi_pos evs [] s = Inr s"
| "run_steps a poi_pos evs (n # ns) s =
     (case loop_body a poi_pos (evs n) (int n) s of
        Inl err \<Rightarrow> Inl err
      | Inr s' \<Rightarrow> run_steps a poi_pos evs ns s')"

definition init_state :: state where
  "init_state = \<lparr>vehicles = [], output_csv = [], printed = []\<rparr>"

text \<open>
  \<open>main\<close> after argument parsing: the registry is built, then the loop runs over
  \<open>range(args.time+1)\<close>. The result carries the final tracker together with the rows
  of the site-position file.
\<close>

definition main :: "args \<Rightarrow> env \<Rightarrow> error + state \<times> (string \<times> int \<times> int) list" where
  "main a e =
     (case setup_sites a e of
        Inl err \<Rightarrow> Inl err
      | Inr (poi_pos, sites_pos) \<Rightarrow>
          (case run_steps a poi_pos (events e) [0 ..< nat (time a + 1)] init_state of
             Inl err \<Rightarrow> Inl err
           | Inr s \<Rightarrow> Inr (s, sites_pos)))"

subsection \<open>The registry invariant of the tracker\<close>

text \<open>Every value of the tracker is \<open>None\<close> or a key of the registry.\<close>

definition sites_known :: "poi_dict \<Rightarrow> veh_dict \<Rightarrow> bool" where
  "sites_known poi_pos vs =
     list_all (\<lambda>(veh_id, cell_site).
        case cell_site of None \<Rightarrow> True | Some sid \<Rightarrow> sid \<in> fst ` set poi_pos) vs"

subsection \<open>Scenarios\<close>

text \<open>
  Concrete inputs on which the definitions are evaluated: two sites on the x axis 120
  apart, a range of 100, a check every 180 steps; an engine that defines no markers of
  its own, has a network of 10 by 10 and reports no vehicle; and the reports of a
  vehicle \<open>veh0\<close> that enters out of range at step 1 and is 10 from site \<open>0\<close> at step 2.
\<close>

definition demo_args :: args where
  "demo_args = \<lparr>cell_sites = Some 2, time = 2, step = 180, distance = 100,
                 input = None, sumo_net = None\<rparr>"

definition demo_poi :: poi_dict where
  "demo_poi = [(''0'', (0, 0)), (''1'', (120, 0))]"

definition reports :: "string list \<Rightarrow> (string \<times> coord) list \<Rightarrow> step_events" where
  "reports gone results =
     \<lparr>getArrivedIDList = gone, getEndingTeleportIDList = [], getDepartedIDList = [],
      getAllSubscriptionResults = results\<rparr>"

definition tracking :: "veh_dict \<Rightarrow> state" where
  "tracking vs = \<lparr>vehicles = vs, output_csv = [], printed = []\<rparr>"

definition demo_events :: "nat \<Rightarrow> step_events" where
  "demo_events n =
     (if n = 1 then reports [] [(''veh0'', (500, 0))]
      else if n = 2 then reports [] [(''veh0'', (10, 0))]
      else reports [] [])"

definition demo_env :: env where
  "demo_env = \<lparr>loaded_pois = [],
                read_csv = (\<lambda>path. [(''a'', 2, 1)]),
                convertLonLat2XY = (\<lambda>net lon lat. (lon, lat)),
                getNetBoundary = ((0, 0), (10, 10)),
                random_draw = (\<lambda>k. 7 * k + 3),
                events = (\<lambda>n. reports [] [])\<rparr>"

section \<open>The nearest-site resolver\<close>

lemma min_dist_Cons:
  "rest \<noteq> [] \<Longrightarrow> min_dist (x # rest) v = min (site_dist v x) (min_dist rest v)"
  by (simp add: min_dist_def)

lemma min_dist_single: "min_dist [x] v = site_dist v x"
  by (simp add: min_dist_def)

lemma min_dist_le: "entry \<in> set poi_pos \<Longrightarrow> min_dist poi_pos v \<le> site_dist v entry"
  by (simp add: min_dist_def)

lemma loop_step:
  "new_cell_site_loop (x # rest) v acc =
     (if dist_less (site_dist v x) (snd acc)
      then new_cell_site_loop rest v (Some (fst x), Fin (site_dist v x))
      else new_cell_site_loop rest v acc)"
  by (cases x) (simp add: site_dist_def Let_def)

text \<open>
  Once the accumulator holds a site, the scan keeps it unless a strictly smaller distance
  follows, and then ends on the first entry at the smallest distance.
\<close>

lemma loop_from_Fin:
  "new_cell_site_loop xs v (Some a, Fin d) =
     (if xs = [] \<or> d \<le> min_dist xs v then (Some a, Fin d)
      else (map_option fst (find (\<lambda>entry. site_dist v entry = min_dist xs v) xs),
            Fin (min_dist xs v)))"
proof (induction xs arbitrary: a d)
  case Nil
  show ?case by simp
next
  case (Cons x rest)
  show ?case
  proof (cases "rest = []")
    case True
    then show ?thesis
      by (auto simp: loop_step min_dist_single)
  next
    case False
    then show ?thesis
      unfolding loop_step Cons.IH
      by (auto simp: min_dist_Cons min_def)
  qed
qed

lemma new_cell_site_eq:
  "new_cell_site poi_pos v m = nearest_in_range poi_pos v m"
proof (cases poi_pos)
  case Nil
  then show ?thesis by (simp add: new_cell_site_def nearest_in_range_def)
next
  case (Cons x rest)
  show ?thesis
  proof (cases "rest = []")
    case True
    with Cons show ?thesis
      by (simp add: new_cell_site_def nearest_in_range_def loop_step min_dist_single)
  next
    case False
    with Cons show ?thesis
      by (auto simp: new_cell_site_def nearest_in_range_def loop_step loop_from_Fin
            min_dist_Cons min_def Let_def)
  qed
qed

lemma getDistance2D_same_y: "getDistance2D x1 y x2 y = \<bar>x1 - x2\<bar>"
  by (simp add: getDistance2D_def)

text \<open>
  Claim C2. For a non-empty registry, \<open>new_cell_site\<close> returns the id of the first
  entry, in registry order, whose Euclidean distance to the vehicle is the minimum over
  the registry, when that minimum is at most \<open>max_dist\<close>; it returns \<open>None\<close> when the
  minimum exceeds \<open>max_dist\<close>.
\<close>

theorem new_cell_site_nearest:
  assumes "poi_pos \<noteq> []"
  shows "(\<forall>entry \<in> set poi_pos. min_dist poi_pos v \<le> site_dist v entry) \<and>
         (min_dist poi_pos v \<le> m \<longrightarrow>
            (\<exists>i < length poi_pos.
               new_cell_site poi_pos v m = Some (fst (poi_pos ! i)) \<and>
               site_dist v (poi_pos ! i) = min_dist poi_pos v \<and>
               (\<forall>j < i. min_dist poi_pos v < site_dist v (poi_pos ! j)))) \<and>
         (m < min_dist poi_pos v \<longrightarrow> new_cell_site poi_pos v m = None)"
proof (intro conjI impI ballI)
  fix entry assume "entry \<in> set poi_pos"
  then show "min_dist poi_pos v \<le> site_dist v entry" by (rule min_dist_le)
next
  assume le: "min_dist poi_pos v \<le> m"
  have "min_dist poi_pos v \<in> site_dist v ` set poi_pos"
    unfolding min_dist_def using assms by (intro Min_in) auto
  then obtain entry where e: "entry \<in> set poi_pos" "site_dist v entry = min_dist poi_pos v"
    by auto
  then have "find (\<lambda>entry. site_dist v entry = min_dist poi_pos v) poi_pos \<noteq> None"
    unfolding find_None_iff by blast
  then obtain y where y: "find (\<lambda>entry. site_dist v entry = min_dist poi_pos v) poi_pos = Some y"
    by blast
  then obtain i where i: "i < length poi_pos" "site_dist v (poi_pos ! i) = min_dist poi_pos v"
    "y = poi_pos ! i" "\<forall>j<i. site_dist v (poi_pos ! j) \<noteq> min_dist poi_pos v"
    by (auto simp: find_Some_iff)
  have "\<forall>j<i. min_dist poi_pos v < site_dist v (poi_pos ! j)"
  proof (intro allI impI)
    fix j assume "j < i"
    with i have "site_dist v (poi_pos ! j) \<noteq> min_dist poi_pos v" "poi_pos ! j \<in> set poi_pos"
      by auto
    with min_dist_le [of "poi_pos ! j" poi_pos v]
    show "min_dist poi_pos v < site_dist v (poi_pos ! j)" by simp
  qed
  moreover have "new_cell_site poi_pos v m = Some (fst (poi_pos ! i))"
    using assms le y i by (simp add: new_cell_site_eq nearest_in_range_def)
  ultimately show "\<exists>i < length poi_pos.
               new_cell_site poi_pos v m = Some (fst (poi_pos ! i)) \<and>
               site_dist v (poi_pos ! i) = min_dist poi_pos v \<and>
               (\<forall>j < i. min_dist poi_pos v < site_dist v (poi_pos ! j))"
    using i by blast
next
  assume "m < min_dist poi_pos v"
  then show "new_cell_site poi_pos v m = None"
    using assms by (simp add: new_cell_site_eq nearest_in_range_def)
qed

text \<open>
  Three sites on the x axis, the last two both at distance 1 from the vehicle: the
  first of the two is returned within range 100, and nothing within range 1/2.
\<close>

theorem new_cell_site_nearest_witness:
  "[(''0'', (3, 0)), (''1'', (1, 0)), (''2'', (-1, 0))] \<noteq> ([] :: poi_dict) \<and>
   min_dist [(''0'', (3, 0)), (''1'', (1, 0)), (''2'', (-1, 0))] (0, 0) = 1 \<and>
   new_cell_site [(''0'', (3, 0)), (''1'', (1, 0)), (''2'', (-1, 0))] (0, 0) 100 = Some ''1'' \<and>
   new_cell_site [(''0'', (3, 0)), (''1'', (1, 0)), (''2'', (-1, 0))] (0, 0) (1 / 2) = None"
proof -
  let ?L = "[(''0'', (3, 0)), (''1'', (1, 0)), (''2'', (-1, 0))] :: poi_dict"
  let ?v = "(0, 0) :: coord"
  have ne: "?L \<noteq> []"
    by simp
  have md: "min_dist ?L ?v = 1"
    by (simp add: min_dist_def site_dist_def getDistance2D_same_y)
  have sd0: "site_dist ?v (?L ! 0) = 3" and sd1: "site_dist ?v (?L ! 1) = 1"
    by (simp_all add: site_dist_def getDistance2D_same_y)
  have "min_dist ?L ?v \<le> 100"
    by (simp add: md)
  with new_cell_site_nearest [OF ne, of ?v 100]
  have "\<exists>i < length ?L. new_cell_site ?L ?v 100 = Some (fst (?L ! i)) \<and>
          site_dist ?v (?L ! i) = min_dist ?L ?v \<and>
          (\<forall>j < i. min_dist ?L ?v < site_dist ?v (?L ! j))"
    by blast
  then obtain i where i: "i < length ?L" "new_cell_site ?L ?v 100 = Some (fst (?L ! i))"
    "site_dist ?v (?L ! i) = min_dist ?L ?v" "\<forall>j < i. min_dist ?L ?v < site_dist ?v (?L ! j)"
    by blast
  from i(1) have "i = 0 \<or> i = 1 \<or> i = 2"
    by (simp only: length_Cons list.size) arith
  then have "i = 1"
  proof (elim disjE)
    assume "i = 0"
    with i(3) sd0 md show ?thesis by simp
  next
    assume "i = 1"
    then show ?thesis .
  next
    assume "i = 2"
    then have "1 < i" by simp
    with i(4) have "min_dist ?L ?v < site_dist ?v (?L ! 1)" by blast
    with sd1 md show ?thesis by simp
  qed
  with i(2) have r1: "new_cell_site ?L ?v 100 = Some ''1''"
    by simp
  have "1 / 2 < min_dist ?L ?v"
    by (simp add: md)
  with new_cell_site_nearest [OF ne, of ?v "1 / 2"]
  have r2: "new_cell_site ?L ?v (1 / 2) = None"
    by blast
  from ne md r1 r2 show ?thesis by blast
qed

section \<open>The association tracker\<close>


lemma sites_known_iff:
  "sites_known poi_pos vs \<longleftrightarrow>
     (\<forall>k sid. (k, Some sid) \<in> set vs \<longrightarrow> sid \<in> fst ` set poi_pos)"
  by (auto simp: sites_known_def list_all_iff split: option.splits)

lemma set_update_subset: "set (AList.update k v al) \<subseteq> insert (k, v) (set al)"
  by (induction al) auto

lemma set_delete_subset: "set (AList.delete k al) \<subseteq> set al"
  by (auto simp: AList.delete_eq)

lemma sites_known_update:
  assumes "sites_known poi_pos vs" and "\<And>sid. v = Some sid \<Longrightarrow> sid \<in> fst ` set poi_pos"
  shows "sites_known poi_pos (AList.update k v vs)"
  unfolding sites_known_iff
proof (intro allI impI)
  fix k' sid assume "(k', Some sid) \<in> set (AList.update k v vs)"
  with set_update_subset [of k v vs] have "(k', Some sid) = (k, v) \<or> (k', Some sid) \<in> set vs"
    by auto
  with assms show "sid \<in> fst ` set poi_pos"
    by (auto simp: sites_known_iff)
qed

lemma sites_known_delete:
  "sites_known poi_pos vs \<Longrightarrow> sites_known poi_pos (AList.delete k vs)"
  using set_delete_subset [of k vs] by (auto simp: sites_known_iff)

lemma new_cell_site_in_registry:
  assumes "new_cell_site poi_pos c m = Some sid"
  shows "sid \<in> fst ` set poi_pos"
proof -
  from assms obtain entry where
    "find (\<lambda>entry. site_dist c entry = min_dist poi_pos c) poi_pos = Some entry" "fst entry = sid"
    by (auto simp: new_cell_site_eq nearest_in_range_def split: if_splits)
  then show ?thesis
    by (auto simp: find_Some_iff)
qed

lemma try_del_map_of:
  "map_of (vehicles (try_del msg k s)) = (map_of (vehicles s))(k := None)"
proof (cases "k \<in> fst ` set (vehicles s)")
  case True
  then show ?thesis by (simp add: try_del_def del_item_def AList.delete_conv')
next
  case False
  then have "map_of (vehicles s) k = None" by (simp add: map_of_eq_None_iff)
  with False show ?thesis by (auto simp: try_del_def del_item_def)
qed

lemma try_del_sites_known:
  "sites_known poi_pos (vehicles s) \<Longrightarrow> sites_known poi_pos (vehicles (try_del msg k s))"
  by (simp add: try_del_def del_item_def sites_known_delete)

lemma try_del_output: "output_csv (try_del msg k s) = output_csv s"
  by (simp add: try_del_def del_item_def)

lemma delete_vehicles_map_of:
  "map_of (vehicles (delete_vehicles msg ids s)) k =
     (if k \<in> set ids then None else map_of (vehicles s) k)"
  unfolding delete_vehicles_def
  by (induction ids arbitrary: s) (simp_all add: try_del_map_of)

lemma delete_vehicles_sites_known:
  "sites_known poi_pos (vehicles s) \<Longrightarrow>
   sites_known poi_pos (vehicles (delete_vehicles msg ids s))"
  unfolding delete_vehicles_def
  by (induction ids arbitrary: s) (simp_all add: try_del_sites_known)

lemma delete_vehicles_output: "output_csv (delete_vehicles msg ids s) = output_csv s"
  unfolding delete_vehicles_def
  by (induction ids arbitrary: s) (simp_all add: try_del_output)

lemma sites_known_lookup:
  assumes "sites_known poi_pos vs" "map_of vs k = Some (Some sid)"
  shows "\<exists>p. map_of poi_pos sid = Some p"
proof -
  from assms(2) have "(k, Some sid) \<in> set vs" by (rule map_of_SomeD)
  with assms(1) have "sid \<in> fst ` set poi_pos" by (auto simp: sites_known_iff)
  then have "map_of poi_pos sid \<noteq> None" by (simp add: map_of_eq_None_iff)
  then show ?thesis by blast
qed

lemma assign_vehicle_new:
  assumes "map_of vs k = None \<or> map_of vs k = Some None \<or> map_of vs k = Some (Some [])"
  shows "assign_vehicle poi_pos check m vs (k, c) =
           Inr (AList.update k (new_cell_site poi_pos c m) vs)"
  using assms by (auto simp: assign_vehicle_def)

lemma assign_vehicle_no_check:
  assumes "map_of vs k = Some (Some sid)" "sid \<noteq> []"
  shows "assign_vehicle poi_pos False m vs (k, c) = Inr vs"
  using assms by (simp add: assign_vehicle_def)

lemma assign_vehicle_check:
  assumes "map_of vs k = Some (Some sid)" "sid \<noteq> []" "map_of poi_pos sid = Some p"
  shows "assign_vehicle poi_pos True m vs (k, c) =
           Inr (if check_connection p c m
                then AList.update k (new_cell_site poi_pos c m) vs else vs)"
  using assms by (simp add: assign_vehicle_def)

lemma assign_vehicle_ok:
  assumes "sites_known poi_pos vs"
  shows "\<exists>vs'. assign_vehicle poi_pos check m vs kv = Inr vs' \<and> sites_known poi_pos vs' \<and>
           (\<forall>k. k \<noteq> fst kv \<longrightarrow> map_of vs' k = map_of vs k)"
proof -
  obtain k c where kv: "kv = (k, c)" by (cases kv)
  have upd: "sites_known poi_pos (AList.update k (new_cell_site poi_pos c m) vs)"
    using assms by (rule sites_known_update) (rule new_cell_site_in_registry)
  have other: "\<forall>k'. k' \<noteq> k \<longrightarrow>
      map_of (AList.update k (new_cell_site poi_pos c m) vs) k' = map_of vs k'"
    by (simp add: AList.update_conv')
  consider (new) "map_of vs k = None \<or> map_of vs k = Some None \<or> map_of vs k = Some (Some [])"
    | (old) sid where "map_of vs k = Some (Some sid)" "sid \<noteq> []"
    by (cases "map_of vs k"; cases "the (map_of vs k)"; cases "the (the (map_of vs k)) = []") auto
  then show ?thesis
  proof cases
    case new
    with upd other show ?thesis
      unfolding kv by (simp add: assign_vehicle_new)
  next
    case old
    from sites_known_lookup [OF assms old(1)] obtain p where p: "map_of poi_pos sid = Some p" ..
    show ?thesis
    proof (cases check)
      case True
      with old p upd other assms show ?thesis
        unfolding kv by (simp add: assign_vehicle_check)
    next
      case False
      with old assms show ?thesis
        unfolding kv by (simp add: assign_vehicle_no_check)
    qed
  qed
qed

lemma assign_vehicle_cong:
  assumes "map_of vs k = map_of ws k"
  shows "map_sum id (\<lambda>vs'. map_of vs' k) (assign_vehicle poi_pos check m vs (k, c)) =
         map_sum id (\<lambda>ws'. map_of ws' k) (assign_vehicle poi_pos check m ws (k, c))"
  using assms
  by (auto simp: assign_vehicle_def Let_def AList.update_conv' split: option.splits)

lemma assign_all_ok:
  assumes "sites_known poi_pos vs"
  shows "\<exists>vs'. assign_all poi_pos check m rs vs = Inr vs' \<and> sites_known poi_pos vs' \<and>
           (\<forall>k. k \<notin> fst ` set rs \<longrightarrow> map_of vs' k = map_of vs k)"
  using assms
proof (induction rs arbitrary: vs)
  case Nil
  then show ?case by simp
next
  case (Cons kv rest)
  from assign_vehicle_ok [OF Cons.prems, of check m kv]
  obtain vs1 where vs1: "assign_vehicle poi_pos check m vs kv = Inr vs1" "sites_known poi_pos vs1"
    "\<forall>k. k \<noteq> fst kv \<longrightarrow> map_of vs1 k = map_of vs k"
    by blast
  from Cons.IH [OF vs1(2)] obtain vs' where
    vs': "assign_all poi_pos check m rest vs1 = Inr vs'" "sites_known poi_pos vs'"
    "\<forall>k. k \<notin> fst ` set rest \<longrightarrow> map_of vs' k = map_of vs1 k"
    by blast
  from vs1 vs' show ?case by auto
qed

lemma assign_all_entry:
  assumes "sites_known poi_pos vs" "distinct (map fst rs)" "(k, c) \<in> set rs"
  shows "\<exists>vs' vs1. assign_all poi_pos check m rs vs = Inr vs' \<and> sites_known poi_pos vs' \<and>
           assign_vehicle poi_pos check m vs (k, c) = Inr vs1 \<and> map_of vs' k = map_of vs1 k"
  using assms
proof (induction rs arbitrary: vs)
  case Nil
  then show ?case by simp
next
  case (Cons kv rest)
  from assign_vehicle_ok [OF Cons.prems(1), of check m kv]
  obtain vs2 where vs2: "assign_vehicle poi_pos check m vs kv = Inr vs2" "sites_known poi_pos vs2"
    "\<forall>k'. k' \<noteq> fst kv \<longrightarrow> map_of vs2 k' = map_of vs k'"
    by blast
  show ?case
  proof (cases "kv = (k, c)")
    case True
    with Cons.prems(2) have "k \<notin> fst ` set rest" by auto
    with assign_all_ok [OF vs2(2), of check m rest] obtain vs' where
      "assign_all poi_pos check m rest vs2 = Inr vs'" "sites_known poi_pos vs'"
      "map_of vs' k = map_of vs2 k"
      by blast
    with vs2 True show ?thesis by auto
  next
    case False
    with Cons.prems have mem: "(k, c) \<in> set rest" and dist: "distinct (map fst rest)"
      and ne: "k \<noteq> fst kv"
      by (auto simp: image_iff)
    from Cons.IH [OF vs2(2) dist mem] obtain vs' vs1' where
      r: "assign_all poi_pos check m rest vs2 = Inr vs'" "sites_known poi_pos vs'"
      "assign_vehicle poi_pos check m vs2 (k, c) = Inr vs1'" "map_of vs' k = map_of vs1' k"
      by blast
    from vs2(3) ne have "map_of vs k = map_of vs2 k" by simp
    from assign_vehicle_cong [OF this, of poi_pos check m c] r(3)
    obtain vs1 where "assign_vehicle poi_pos check m vs (k, c) = Inr vs1"
      "map_of vs1 k = map_of vs1' k"
      by (cases "assign_vehicle poi_pos check m vs (k, c)") auto
    with vs2(1) r show ?thesis by auto
  qed
qed

lemma assign_all_no_check_keeps:
  assumes "sites_known poi_pos vs" "map_of vs k = Some (Some sid)" "sid \<noteq> []"
  shows "\<exists>vs'. assign_all poi_pos False m rs vs = Inr vs' \<and> sites_known poi_pos vs' \<and>
           map_of vs' k = Some (Some sid)"
  using assms
proof (induction rs arbitrary: vs)
  case Nil
  then show ?case by simp
next
  case (Cons kv rest)
  from assign_vehicle_ok [OF Cons.prems(1), of False m kv]
  obtain vs2 where vs2: "assign_vehicle poi_pos False m vs kv = Inr vs2" "sites_known poi_pos vs2"
    "\<forall>k'. k' \<noteq> fst kv \<longrightarrow> map_of vs2 k' = map_of vs k'"
    by blast
  have "map_of vs2 k = Some (Some sid)"
  proof (cases "fst kv = k")
    case True
    then have "kv = (k, snd kv)" by (cases kv) simp
    with assign_vehicle_no_check [OF Cons.prems(2,3), of poi_pos m "snd kv"] vs2(1)
    have "vs2 = vs" by simp
    with Cons.prems(2) show ?thesis by simp
  next
    case False
    with vs2(3) Cons.prems(2) show ?thesis by simp
  qed
  from Cons.IH [OF vs2(2) this Cons.prems(3)] vs2(1) show ?case by simp
qed

lemma loop_body_unfold:
  assumes "step a \<noteq> 0"
    and "assign_all poi_pos (stp mod step a = 0) (real_of_int (distance a))
           (getAllSubscriptionResults ev)
           (vehicles (delete_vehicles msg_teleported (getEndingTeleportIDList ev)
              (delete_vehicles msg_arrived (getArrivedIDList ev) s))) = Inr vs"
  shows "\<exists>s'. loop_body a poi_pos ev stp s = Inr s' \<and> vehicles s' = vs"
  using assms by (simp add: loop_body_def Let_def)

lemma removal_phase_map_of:
  "map_of (vehicles (delete_vehicles msg_teleported tele (delete_vehicles msg_arrived arr s))) k =
     (if k \<in> set arr \<or> k \<in> set tele then None else map_of (vehicles s) k)"
  by (simp add: delete_vehicles_map_of)

lemma removal_phase_sites_known:
  "sites_known poi_pos (vehicles s) \<Longrightarrow>
   sites_known poi_pos
     (vehicles (delete_vehicles msg_teleported tele (delete_vehicles msg_arrived arr s)))"
  by (simp add: delete_vehicles_sites_known)

lemma loop_body_ok:
  assumes "step a \<noteq> 0" "sites_known poi_pos (vehicles s)"
  shows "\<exists>s'. loop_body a poi_pos ev stp s = Inr s' \<and> sites_known poi_pos (vehicles s')"
proof -
  from assign_all_ok [OF removal_phase_sites_known [OF assms(2)]]
  obtain vs where "assign_all poi_pos (stp mod step a = 0) (real_of_int (distance a))
           (getAllSubscriptionResults ev)
           (vehicles (delete_vehicles msg_teleported (getEndingTeleportIDList ev)
              (delete_vehicles msg_arrived (getArrivedIDList ev) s))) = Inr vs"
    "sites_known poi_pos vs"
    by blast
  with loop_body_unfold [OF assms(1)] show ?thesis by metis
qed

lemma run_steps_ok:
  assumes "step a \<noteq> 0" "sites_known poi_pos (vehicles s)"
  shows "\<exists>s'. run_steps a poi_pos evs ns s = Inr s' \<and> sites_known poi_pos (vehicles s')"
  using assms(2)
proof (induction ns arbitrary: s)
  case Nil
  then show ?case by simp
next
  case (Cons n ns)
  from loop_body_ok [OF assms(1) Cons.prems, of "evs n" "int n"]
  obtain s1 where "loop_body a poi_pos (evs n) (int n) s = Inr s1" "sites_known poi_pos (vehicles s1)"
    by blast
  with Cons.IH [of s1] show ?case by simp
qed

lemma run_steps_zero:
  "step a = 0 \<Longrightarrow>
   run_steps a poi_pos evs ns s = (if ns = [] then Inr s else Inl ZeroDivisionError)"
  by (cases ns) (simp_all add: loop_body_def)

lemma sites_known_init: "sites_known poi_pos (vehicles init_state)"
  by (simp add: init_state_def sites_known_def)

text \<open>The definitions unfolded to run the loop on the scenarios.\<close>

lemmas demo_simps = loop_body_def demo_args_def demo_poi_def demo_events_def reports_def
      init_state_def tracking_def delete_vehicles_def assign_vehicle_def new_cell_site_def
      getDistance2D_same_y write_positions_def Let_def try_del_def del_item_def

text \<open>
  Claim C9. After every iteration of the loop, started on the empty tracker, every value
  of the tracker is \<open>None\<close> or a key of the registry, so that the lookup
  \<open>poi_pos[poi_id]\<close> never raises \<open>KeyError\<close>; and with a non-zero interval every
  iteration completes.
\<close>

theorem tracker_values_in_registry:
  "(\<forall>k. run_steps a poi_pos evs [0 ..< n] init_state \<noteq> Inl (KeyError k)) \<and>
   (\<forall>s. run_steps a poi_pos evs [0 ..< n] init_state = Inr s \<longrightarrow>
          sites_known poi_pos (vehicles s)) \<and>
   (step a \<noteq> 0 \<longrightarrow> (\<exists>s. run_steps a poi_pos evs [0 ..< n] init_state = Inr s))"
proof (cases "step a = 0")
  case True
  then show ?thesis
    by (auto simp: run_steps_zero sites_known_init)
next
  case False
  from run_steps_ok [OF False sites_known_init, of poi_pos evs "[0 ..< n]"]
  show ?thesis using False by auto
qed

text \<open>
  Three steps of the scenario: \<open>veh0\<close> is first out of range, then assigned to site
  \<open>0\<close>, a key of the registry.
\<close>

theorem tracker_values_in_registry_witness:
  "step demo_args \<noteq> 0 \<and>
   run_steps demo_args demo_poi demo_events [0 ..< 3] init_state =
     Inr (tracking [(''veh0'', Some ''0'')]) \<and>
   sites_known demo_poi (vehicles (tracking [(''veh0'', Some ''0'')]))"
proof -
  have r: "run_steps demo_args demo_poi demo_events [0 ..< 3] init_state =
     Inr (tracking [(''veh0'', Some ''0'')])"
    by (simp add: demo_simps upt_conv_Cons)
  with tracker_values_in_registry [of demo_args demo_poi demo_events 3]
  have "sites_known demo_poi (vehicles (tracking [(''veh0'', Some ''0'')]))"
    by blast
  moreover have "step demo_args \<noteq> 0" by (simp add: demo_args_def)
  ultimately show ?thesis using r by blast
qed

text \<open>
  Claim C3. On a check step, a vehicle that is reported with a position, is not removed
  in that step and is assigned to the site \<open>sid\<close> keeps \<open>sid\<close> when its distance to the
  position of \<open>sid\<close> is at most \<open>args.distance\<close>; otherwise it gets the first nearest
  site of the whole registry if that is within \<open>args.distance\<close>, and \<open>None\<close> if not.
  Site ids are the non-empty strings \<open>str(i)\<close> or \<open>str(row[1])\<close>.
\<close>

theorem check_step_keeps_or_reresolves:
  assumes "step a \<noteq> 0" and "stp mod step a = 0"
    and "sites_known poi_pos (vehicles s)"
    and "distinct (map fst (getAllSubscriptionResults ev))"
    and "(k, c) \<in> set (getAllSubscriptionResults ev)"
    and "k \<notin> set (getArrivedIDList ev)" and "k \<notin> set (getEndingTeleportIDList ev)"
    and "map_of (vehicles s) k = Some (Some sid)" and "sid \<noteq> []"
  shows "\<exists>s' p. loop_body a poi_pos ev stp s = Inr s' \<and> map_of poi_pos sid = Some p \<and>
           map_of (vehicles s') k =
             Some (if getDistance2D (fst p) (snd p) (fst c) (snd c) \<le> real_of_int (distance a)
                   then Some sid
                   else nearest_in_range poi_pos c (real_of_int (distance a)))"
proof -
  let ?vs = "vehicles (delete_vehicles msg_teleported (getEndingTeleportIDList ev)
              (delete_vehicles msg_arrived (getArrivedIDList ev) s))"
  let ?m = "real_of_int (distance a)"
  have known: "sites_known poi_pos ?vs"
    using assms(3) by (rule removal_phase_sites_known)
  have cur: "map_of ?vs k = Some (Some sid)"
    using assms(6-8) by (simp add: removal_phase_map_of)
  from sites_known_lookup [OF known cur] obtain p where p: "map_of poi_pos sid = Some p" ..
  from assign_all_entry [OF known assms(4,5), of True ?m]
  obtain vs' vs1 where r: "assign_all poi_pos True ?m (getAllSubscriptionResults ev) ?vs = Inr vs'"
    "assign_vehicle poi_pos True ?m ?vs (k, c) = Inr vs1" "map_of vs' k = map_of vs1 k"
    by blast
  from r(2) have "vs1 = (if check_connection p c ?m
                then AList.update k (new_cell_site poi_pos c ?m) ?vs else ?vs)"
    unfolding assign_vehicle_check [OF cur assms(9) p] by simp
  with cur have "map_of vs1 k =
      Some (if getDistance2D (fst p) (snd p) (fst c) (snd c) \<le> ?m then Some sid
            else nearest_in_range poi_pos c ?m)"
    by (simp add: check_connection_def AList.update_conv' new_cell_site_eq not_less)
  with r(3) have val: "map_of vs' k =
      Some (if getDistance2D (fst p) (snd p) (fst c) (snd c) \<le> ?m then Some sid
            else nearest_in_range poi_pos c ?m)"
    by simp
  from r(1) assms(2) have "assign_all poi_pos (stp mod step a = 0) ?m
      (getAllSubscriptionResults ev) ?vs = Inr vs'"
    by simp
  from loop_body_unfold [OF assms(1) this] obtain s' where
    "loop_body a poi_pos ev stp s = Inr s'" "vehicles s' = vs'"
    by blast
  with p val show ?thesis by auto
qed

text \<open>
  On check step 180, \<open>veh0\<close> is assigned to site \<open>0\<close> at the origin: at 90 it keeps the
  site although site \<open>1\<close> is nearer, at 150 it moves to site \<open>1\<close>, at 500 it has no site.
\<close>

theorem check_step_keeps_or_reresolves_witness:
  "(\<exists>s'. loop_body demo_args demo_poi (reports [] [(''veh0'', (90, 0))]) 180
           (tracking [(''veh0'', Some ''0'')]) = Inr s' \<and>
         map_of (vehicles s') ''veh0'' = Some (Some ''0'')) \<and>
   (\<exists>s'. loop_body demo_args demo_poi (reports [] [(''veh0'', (150, 0))]) 180
           (tracking [(''veh0'', Some ''0'')]) = Inr s' \<and>
         map_of (vehicles s') ''veh0'' = Some (Some ''1'')) \<and>
   (\<exists>s'. loop_body demo_args demo_poi (reports [] [(''veh0'', (500, 0))]) 180
           (tracking [(''veh0'', Some ''0'')]) = Inr s' \<and>
         map_of (vehicles s') ''veh0'' = Some None)"
proof -
  let ?s = "tracking [(''veh0'', Some ''0'')]"
  have h: "step demo_args \<noteq> 0" "180 mod step demo_args = 0"
    "sites_known demo_poi (vehicles ?s)"
    by (simp_all add: demo_args_def demo_poi_def tracking_def sites_known_def)
  have g: "map_of (vehicles ?s) ''veh0'' = Some (Some ''0'')" "''0'' \<noteq> []"
    by (simp_all add: tracking_def)
  have e: "distinct (map fst (getAllSubscriptionResults (reports [] [(''veh0'', c)])))"
    "(''veh0'', c) \<in> set (getAllSubscriptionResults (reports [] [(''veh0'', c)]))"
    "''veh0'' \<notin> set (getArrivedIDList (reports [] [(''veh0'', c)]))"
    "''veh0'' \<notin> set (getEndingTeleportIDList (reports [] [(''veh0'', c)]))" for c
    by (simp_all add: reports_def)
  have p: "map_of demo_poi ''0'' = Some p \<longleftrightarrow> p = (0, 0)" for p
    by (auto simp: demo_poi_def)
  have n: "nearest_in_range demo_poi (150, 0) 100 = Some ''1''"
    "nearest_in_range demo_poi (500, 0) 100 = None"
    unfolding new_cell_site_eq [symmetric]
    by (simp_all add: new_cell_site_def demo_poi_def getDistance2D_same_y)
  from check_step_keeps_or_reresolves [OF h e g, of "(90, 0)"]
  have 1: "\<exists>s'. loop_body demo_args demo_poi (reports [] [(''veh0'', (90, 0))]) 180 ?s = Inr s' \<and>
         map_of (vehicles s') ''veh0'' = Some (Some ''0'')"
    by (auto simp: p getDistance2D_same_y demo_args_def)
  from check_step_keeps_or_reresolves [OF h e g, of "(150, 0)"]
  have 2: "\<exists>s'. loop_body demo_args demo_poi (reports [] [(''veh0'', (150, 0))]) 180 ?s = Inr s' \<and>
         map_of (vehicles s') ''veh0'' = Some (Some ''1'')"
    by (auto simp: p n getDistance2D_same_y demo_args_def)
  from check_step_keeps_or_reresolves [OF h e g, of "(500, 0)"]
  have 3: "\<exists>s'. loop_body demo_args demo_poi (reports [] [(''veh0'', (500, 0))]) 180 ?s = Inr s' \<and>
         map_of (vehicles s') ''veh0'' = Some None"
    by (auto simp: p n getDistance2D_same_y demo_args_def)
  from 1 2 3 show ?thesis by blast
qed

text \<open>
  Claim C4. A vehicle that is reported with a position and has no record when the
  positions are processed (it had none before the step, or it was removed in it) has a
  record at the end of the same iteration, holding what \<open>new_cell_site\<close> returns for
  the reported position, on check steps and on all others.
\<close>

theorem new_vehicle_resolved_same_step:
  assumes "step a \<noteq> 0"
    and "sites_known poi_pos (vehicles s)"
    and "distinct (map fst (getAllSubscriptionResults ev))"
    and "(k, c) \<in> set (getAllSubscriptionResults ev)"
    and "map_of (vehicles s) k = None \<or> k \<in> set (getArrivedIDList ev) \<or>
         k \<in> set (getEndingTeleportIDList ev)"
  shows "\<exists>s'. loop_body a poi_pos ev stp s = Inr s' \<and>
           map_of (vehicles s') k = Some (new_cell_site poi_pos c (real_of_int (distance a)))"
proof -
  let ?vs = "vehicles (delete_vehicles msg_teleported (getEndingTeleportIDList ev)
              (delete_vehicles msg_arrived (getArrivedIDList ev) s))"
  let ?m = "real_of_int (distance a)"
  let ?check = "stp mod step a = 0"
  have known: "sites_known poi_pos ?vs"
    using assms(2) by (rule removal_phase_sites_known)
  have cur: "map_of ?vs k = None"
    using assms(5) by (auto simp: removal_phase_map_of)
  from assign_all_entry [OF known assms(3,4), of ?check ?m]
  obtain vs' vs1 where r: "assign_all poi_pos ?check ?m (getAllSubscriptionResults ev) ?vs = Inr vs'"
    "assign_vehicle poi_pos ?check ?m ?vs (k, c) = Inr vs1" "map_of vs' k = map_of vs1 k"
    by blast
  from cur have "assign_vehicle poi_pos ?check ?m ?vs (k, c) =
      Inr (AList.update k (new_cell_site poi_pos c ?m) ?vs)"
    by (intro assign_vehicle_new) simp
  with r(2,3) have val: "map_of vs' k = Some (new_cell_site poi_pos c ?m)"
    by (auto simp: AList.update_conv')
  from loop_body_unfold [OF assms(1) r(1)] obtain s' where
    "loop_body a poi_pos ev stp s = Inr s'" "vehicles s' = vs'"
    by blast
  with val show ?thesis by auto
qed

text \<open>Step 1 is not a check step; \<open>veh1\<close> is new and 10 away from site \<open>1\<close>.\<close>

theorem new_vehicle_resolved_same_step_witness:
  "(1::int) mod step demo_args \<noteq> 0 \<and>
   (\<exists>s'. loop_body demo_args demo_poi (reports [] [(''veh0'', (90, 0)), (''veh1'', (130, 0))]) 1
           (tracking [(''veh0'', Some ''0'')]) = Inr s' \<and>
         map_of (vehicles s') ''veh1'' = Some (Some ''1''))"
proof -
  let ?s = "tracking [(''veh0'', Some ''0'')]"
  let ?ev = "reports [] [(''veh0'', (90, 0)), (''veh1'', (130, 0))]"
  have h: "step demo_args \<noteq> 0" "sites_known demo_poi (vehicles ?s)"
    "distinct (map fst (getAllSubscriptionResults ?ev))"
    "(''veh1'', (130, 0)) \<in> set (getAllSubscriptionResults ?ev)"
    "map_of (vehicles ?s) ''veh1'' = None \<or> ''veh1'' \<in> set (getArrivedIDList ?ev) \<or>
       ''veh1'' \<in> set (getEndingTeleportIDList ?ev)"
    by (simp_all add: demo_args_def demo_poi_def tracking_def sites_known_def reports_def)
  have n: "new_cell_site demo_poi (130, 0) (real_of_int (distance demo_args)) = Some ''1''"
    by (simp add: new_cell_site_def demo_poi_def demo_args_def getDistance2D_same_y)
  from new_vehicle_resolved_same_step [OF h, of 1]
  have "\<exists>s'. loop_body demo_args demo_poi ?ev 1 ?s = Inr s' \<and>
         map_of (vehicles s') ''veh1'' = Some (Some ''1'')"
    unfolding n .
  moreover have "(1::int) mod step demo_args \<noteq> 0" by (simp add: demo_args_def)
  ultimately show ?thesis by blast
qed

text \<open>
  Outside check steps a record that holds a site is left as it is, as the comment above
  the condition in \<open>main\<close> says.
\<close>

lemma non_check_step_assigned_unchanged:
  assumes "step a \<noteq> 0" and "stp mod step a \<noteq> 0"
    and "sites_known poi_pos (vehicles s)"
    and "k \<notin> set (getArrivedIDList ev)" and "k \<notin> set (getEndingTeleportIDList ev)"
    and "map_of (vehicles s) k = Some (Some sid)" and "sid \<noteq> []"
  shows "\<exists>s'. loop_body a poi_pos ev stp s = Inr s' \<and> map_of (vehicles s') k = Some (Some sid)"
proof -
  let ?vs = "vehicles (delete_vehicles msg_teleported (getEndingTeleportIDList ev)
              (delete_vehicles msg_arrived (getArrivedIDList ev) s))"
  let ?m = "real_of_int (distance a)"
  have known: "sites_known poi_pos ?vs"
    using assms(3) by (rule removal_phase_sites_known)
  have cur: "map_of ?vs k = Some (Some sid)"
    using assms(4-6) by (simp add: removal_phase_map_of)
  from assign_all_no_check_keeps [OF known cur assms(7), of ?m "getAllSubscriptionResults ev"]
  obtain vs' where r: "assign_all poi_pos False ?m (getAllSubscriptionResults ev) ?vs = Inr vs'"
    "map_of vs' k = Some (Some sid)"
    by blast
  from r(1) assms(2) have "assign_all poi_pos (stp mod step a = 0) ?m
      (getAllSubscriptionResults ev) ?vs = Inr vs'"
    by simp
  from loop_body_unfold [OF assms(1) this] obtain s' where
    "loop_body a poi_pos ev stp s = Inr s'" "vehicles s' = vs'"
    by blast
  with r(2) show ?thesis by auto
qed

text \<open>
  Claim C1 fails for a record that holds \<open>None\<close>: \<open>not poi_id\<close> is true for it on every
  step. In the scenario \<open>veh0\<close> enters out of range at step 1 and its record is \<open>None\<close>;
  at step 2, which is not a check step, the record changes to site \<open>0\<close>.
\<close>

theorem unassociated_reresolved_off_check_step:
  "run_steps demo_args demo_poi demo_events [0, 1] init_state =
     Inr (tracking [(''veh0'', None)]) \<and>
   (2::int) mod step demo_args \<noteq> 0 \<and>
   loop_body demo_args demo_poi (demo_events 2) 2 (tracking [(''veh0'', None)]) =
     Inr (tracking [(''veh0'', Some ''0'')])"
  by (simp add: demo_simps)

text \<open>
  Claim C5. \<open>del vehicles[veh_id]\<close> raises \<open>KeyError\<close> for an id the tracker does not
  hold, and the \<open>try\<close> statement turns that into a printed message and an unchanged
  tracker; removing an id a second time changes nothing more; a removal leaves the
  entries of all other ids as they are, for one id and for a whole list of reported
  ids; and whatever ids are reported as removed, the iteration completes.
\<close>

theorem removal_never_raises:
  "(veh_id \<notin> fst ` set (vehicles s) \<longrightarrow>
      del_item (vehicles s) veh_id = Inl (KeyError veh_id) \<and>
      try_del msg veh_id s = s\<lparr>printed := printed s @ [msg]\<rparr>) \<and>
   vehicles (try_del msg veh_id (try_del msg veh_id s)) = vehicles (try_del msg veh_id s) \<and>
   (\<forall>k. k \<noteq> veh_id \<longrightarrow>
      map_of (vehicles (try_del msg veh_id s)) k = map_of (vehicles s) k) \<and>
   (\<forall>k. k \<notin> set ids \<longrightarrow>
      map_of (vehicles (delete_vehicles msg ids s)) k = map_of (vehicles s) k) \<and>
   (step a \<noteq> 0 \<and> sites_known poi_pos (vehicles s) \<longrightarrow>
      (\<exists>s'. loop_body a poi_pos ev stp s = Inr s'))"
proof (intro conjI)
  show "veh_id \<notin> fst ` set (vehicles s) \<longrightarrow>
      del_item (vehicles s) veh_id = Inl (KeyError veh_id) \<and>
      try_del msg veh_id s = s\<lparr>printed := printed s @ [msg]\<rparr>"
    by (simp add: try_del_def del_item_def)
  show "vehicles (try_del msg veh_id (try_del msg veh_id s)) = vehicles (try_del msg veh_id s)"
    by (simp add: try_del_def del_item_def AList.delete_notin_dom)
  show "\<forall>k. k \<noteq> veh_id \<longrightarrow>
      map_of (vehicles (try_del msg veh_id s)) k = map_of (vehicles s) k"
    by (simp add: try_del_map_of)
  show "\<forall>k. k \<notin> set ids \<longrightarrow>
      map_of (vehicles (delete_vehicles msg ids s)) k = map_of (vehicles s) k"
    by (simp add: delete_vehicles_map_of)
  show "step a \<noteq> 0 \<and> sites_known poi_pos (vehicles s) \<longrightarrow>
      (\<exists>s'. loop_body a poi_pos ev stp s = Inr s')"
    using loop_body_ok [of a poi_pos s ev stp] by blast
qed

text \<open>
  An id that was never added, an id reported twice, and an iteration whose removal
  lists name both.
\<close>

theorem removal_never_raises_witness:
  "del_item (vehicles (tracking [(''veh0'', Some ''0'')])) ''ghost'' = Inl (KeyError ''ghost'') \<and>
   try_del msg_arrived ''ghost'' (tracking [(''veh0'', Some ''0'')]) =
     (tracking [(''veh0'', Some ''0'')])\<lparr>printed := [msg_arrived]\<rparr> \<and>
   map_of (vehicles (delete_vehicles msg_arrived [''ghost'', ''veh1'', ''veh1'']
             (tracking [(''veh0'', Some ''0''), (''veh1'', None)]))) ''veh0'' = Some (Some ''0'') \<and>
   (\<exists>s'. loop_body demo_args demo_poi (reports [''ghost'', ''veh0'', ''veh0''] []) 7
           (tracking [(''veh0'', Some ''0'')]) = Inr s')"
proof -
  let ?s = "tracking [(''veh0'', Some ''0'')]"
  have a: "''ghost'' \<notin> fst ` set (vehicles ?s)"
    by (simp add: tracking_def)
  from a removal_never_raises [where s = ?s and veh_id = "''ghost''" and msg = msg_arrived]
  have 1: "del_item (vehicles ?s) ''ghost'' = Inl (KeyError ''ghost'')"
    "try_del msg_arrived ''ghost'' ?s = ?s\<lparr>printed := printed ?s @ [msg_arrived]\<rparr>"
    by blast+
  have b: "''veh0'' \<notin> set [''ghost'', ''veh1'', ''veh1'']" by simp
  from b removal_never_raises [where s = "tracking [(''veh0'', Some ''0''), (''veh1'', None)]"
      and ids = "[''ghost'', ''veh1'', ''veh1'']" and msg = msg_arrived]
  have "map_of (vehicles (delete_vehicles msg_arrived [''ghost'', ''veh1'', ''veh1'']
             (tracking [(''veh0'', Some ''0''), (''veh1'', None)]))) ''veh0''
        = map_of (vehicles (tracking [(''veh0'', Some ''0''), (''veh1'', None)])) ''veh0''"
    by blast
  then have 2: "map_of (vehicles (delete_vehicles msg_arrived [''ghost'', ''veh1'', ''veh1'']
             (tracking [(''veh0'', Some ''0''), (''veh1'', None)]))) ''veh0'' = Some (Some ''0'')"
    by (simp add: tracking_def)
  have c: "step demo_args \<noteq> 0 \<and> sites_known demo_poi (vehicles ?s)"
    by (simp add: demo_args_def demo_poi_def tracking_def sites_known_def)
  from c removal_never_raises [where s = ?s and a = demo_args and poi_pos = demo_poi
      and ev = "reports [''ghost'', ''veh0'', ''veh0''] []" and stp = 7]
  have 3: "\<exists>s'. loop_body demo_args demo_poi (reports [''ghost'', ''veh0'', ''veh0''] []) 7 ?s = Inr s'"
    by blast
  from 1 2 3 show ?thesis by (simp add: tracking_def)
qed

section \<open>Building the site registry\<close>


lemma str_nonempty: "str n \<noteq> []"
  by (subst str.simps) simp

lemma length_str_small: "n < 10 \<Longrightarrow> length (str n) = 1"
  by (subst str.simps) simp

lemma length_str_large: "\<not> n < 10 \<Longrightarrow> 2 \<le> length (str n)"
proof -
  assume "\<not> n < 10"
  then have "str n = str (n div 10) @ [digit_char (n mod 10)]"
    by (subst str.simps) simp
  moreover have "0 < length (str (n div 10))"
    using str_nonempty [of "n div 10"] by simp
  ultimately show ?thesis by (simp add: Suc_le_eq)
qed

lemma digit_char_inj: "n < 10 \<Longrightarrow> m < 10 \<Longrightarrow> digit_char n = digit_char m \<Longrightarrow> n = m"
  by (simp add: digit_char_def)

lemma str_inj: "str n = str m \<Longrightarrow> n = m"
proof (induction n arbitrary: m rule: str.induct)
  case (1 n)
  show ?case
  proof (cases "n < 10")
    case small: True
    show ?thesis
    proof (cases "m < 10")
      case True
      with small "1.prems" have "digit_char n = digit_char m"
        by (simp add: str.simps [of n] str.simps [of m])
      with small True show ?thesis by (rule digit_char_inj)
    next
      case False
      from length_str_small [OF small] length_str_large [OF False] "1.prems"
      show ?thesis by simp
    qed
  next
    case large: False
    show ?thesis
    proof (cases "m < 10")
      case True
      from length_str_small [OF True] length_str_large [OF large] "1.prems"
      show ?thesis by simp
    next
      case False
      with large "1.prems" have eq: "str (n div 10) = str (m div 10)"
        "digit_char (n mod 10) = digit_char (m mod 10)"
        by (simp_all add: str.simps [of n] str.simps [of m])
      from "1.IH" [OF large eq(1)] have "n div 10 = m div 10" .
      moreover from eq(2) have "n mod 10 = m mod 10"
        by (intro digit_char_inj) simp_all
      ultimately show ?thesis
        by (metis div_mult_mod_eq)
    qed
  qed
qed

lemma py_int_mono: "x \<le> y \<Longrightarrow> py_int x \<le> py_int y"
proof -
  assume le: "x \<le> y"
  consider "0 \<le> x" | "x < 0" "y < 0" | "x < 0" "0 \<le> y" by linarith
  then show ?thesis
  proof cases
    case 1
    with le show ?thesis by (simp add: py_int_def floor_mono)
  next
    case 2
    with le show ?thesis by (simp add: py_int_def ceiling_mono)
  next
    case 3
    then have "\<lceil>x\<rceil> \<le> 0" "0 \<le> \<lfloor>y\<rfloor>" by (simp_all add: ceiling_le_zero)
    then have "\<lceil>x\<rceil> \<le> \<lfloor>y\<rfloor>" by (rule order_trans)
    moreover from 3 have "py_int x = \<lceil>x\<rceil>" "py_int y = \<lfloor>y\<rfloor>" by (simp_all add: py_int_def)
    ultimately show ?thesis by (simp only:)
  qed
qed

lemma py_int_lower: "x \<le> 0 \<or> x \<in> \<int> \<Longrightarrow> x \<le> real_of_int (py_int x)"
  by (auto simp: py_int_def elim!: Ints_cases)

lemma py_int_upper: "0 \<le> x \<or> x \<in> \<int> \<Longrightarrow> real_of_int (py_int x) \<le> x"
  by (auto simp: py_int_def elim!: Ints_cases)

lemma randint_ok:
  assumes "a \<le> b"
  shows "\<exists>v. randint a b r = Inr v \<and> a \<le> v \<and> v \<le> b"
proof -
  from assms have "0 < nat (b - a + 1)" by simp
  then have "r mod nat (b - a + 1) < nat (b - a + 1)" by (rule mod_less_divisor)
  then have "int (r mod nat (b - a + 1)) < b - a + 1" by linarith
  with assms show ?thesis by (simp add: randint_def)
qed

lemma add_random_sites_rows:
  assumes "x_min \<le> x_max" "y_min \<le> y_max"
  shows "\<exists>pois rows.
           add_random_sites rnd x_min x_max y_min y_max is (p0, r0) = Inr (pois, r0 @ rows) \<and>
           map fst rows = map str is \<and>
           (\<forall>(ident, x, y) \<in> set rows. x_min \<le> x \<and> x \<le> x_max \<and> y_min \<le> y \<and> y \<le> y_max) \<and>
           (distinct is \<and> str ` set is \<inter> fst ` set p0 = {} \<longrightarrow>
              pois = p0 @ map (\<lambda>(ident, x, y). (ident, (real_of_int x, real_of_int y))) rows)"
proof (induction "is" arbitrary: p0 r0)
  case Nil
  show ?case by simp
next
  case (Cons i "is")
  from randint_ok [OF assms(1)] obtain x where
    x: "randint x_min x_max (rnd (2 * i)) = Inr x" "x_min \<le> x" "x \<le> x_max" by blast
  from randint_ok [OF assms(2)] obtain y where
    y: "randint y_min y_max (rnd (2 * i + 1)) = Inr y" "y_min \<le> y" "y \<le> y_max" by blast
  let ?p1 = "poi_add (str i) (real_of_int x) (real_of_int y) p0"
  from Cons.IH [of ?p1 "r0 @ [(str i, x, y)]"] obtain pois rows where
    r: "add_random_sites rnd x_min x_max y_min y_max is (?p1, r0 @ [(str i, x, y)])
          = Inr (pois, (r0 @ [(str i, x, y)]) @ rows)"
    "map fst rows = map str is"
    "\<forall>(ident, x, y) \<in> set rows. x_min \<le> x \<and> x \<le> x_max \<and> y_min \<le> y \<and> y \<le> y_max"
    "distinct is \<and> str ` set is \<inter> fst ` set ?p1 = {} \<longrightarrow>
       pois = ?p1 @ map (\<lambda>(ident, x, y). (ident, (real_of_int x, real_of_int y))) rows"
    by blast
  have fresh: "pois = p0 @ map (\<lambda>(ident, x, y). (ident, (real_of_int x, real_of_int y)))
                 ((str i, x, y) # rows)"
    if d: "distinct (i # is)" and f: "str ` set (i # is) \<inter> fst ` set p0 = {}"
  proof -
    from f have p1: "?p1 = p0 @ [(str i, (real_of_int x, real_of_int y))]"
      by (auto simp: poi_add_def)
    have "str i \<notin> str ` set is"
    proof
      assume "str i \<in> str ` set is"
      then obtain j where "j \<in> set is" "str i = str j" by blast
      with str_inj [of i j] d show False by simp
    qed
    with f have "str ` set is \<inter> fst ` set ?p1 = {}"
      unfolding p1 by auto
    with d r(4) have "pois = ?p1 @ map (\<lambda>(ident, x, y). (ident, (real_of_int x, real_of_int y))) rows"
      by simp
    then show ?thesis unfolding p1 by simp
  qed
  have "add_random_sites rnd x_min x_max y_min y_max (i # is) (p0, r0)
          = Inr (pois, r0 @ ((str i, x, y) # rows))"
    using x(1) y(1) r(1) by simp
  moreover have "map fst ((str i, x, y) # rows) = map str (i # is)"
    using r(2) by simp
  moreover have "\<forall>(ident, x, y) \<in> set ((str i, x, y) # rows).
      x_min \<le> x \<and> x \<le> x_max \<and> y_min \<le> y \<and> y \<le> y_max"
    using r(3) x(2,3) y(2,3) by simp
  ultimately show ?case using fresh by blast
qed

section \<open>Start-up errors\<close>


lemma setup_sites_step: "setup_sites (a\<lparr>step := k\<rparr>) e = setup_sites a e"
  by (simp add: setup_sites_def cong: option.case_cong)

lemma loop_body_neg: "loop_body (a\<lparr>step := - step a\<rparr>) poi_pos ev stp s = loop_body a poi_pos ev stp s"
  by (simp add: loop_body_def mod_eq_0_iff_dvd)

lemma run_steps_neg:
  "run_steps (a\<lparr>step := - step a\<rparr>) poi_pos evs ns s = run_steps a poi_pos evs ns s"
  by (induction ns arbitrary: s) (simp_all add: loop_body_neg split: sum.splits)

text \<open>
  Claim C6, as amended. The check interval is not validated: building the registry does
  not look at \<open>args.step\<close>. With interval 0, once the registry is built and the loop
  has an iteration to run, \<open>main\<close> ends in the \<open>ZeroDivisionError\<close> of
  \<open>step % args.step\<close>; a negative interval raises nothing and behaves as the interval of
  the same absolute value.
\<close>

theorem interval_not_validated:
  "setup_sites (a\<lparr>step := k\<rparr>) e = setup_sites a e \<and>
   (step a = 0 \<and> 0 \<le> time a \<and> setup_sites a e = Inr r \<longrightarrow> main a e = Inl ZeroDivisionError) \<and>
   (step a < 0 \<longrightarrow> main a e = main (a\<lparr>step := - step a\<rparr>) e)"
proof (intro conjI impI)
  show "setup_sites (a\<lparr>step := k\<rparr>) e = setup_sites a e"
    by (rule setup_sites_step)
next
  assume h: "step a = 0 \<and> 0 \<le> time a \<and> setup_sites a e = Inr r"
  then have "[0 ..< nat (time a + 1)] \<noteq> []" by simp
  with h show "main a e = Inl ZeroDivisionError"
    by (cases r) (simp add: main_def run_steps_zero)
next
  show "main a e = main (a\<lparr>step := - step a\<rparr>) e"
    by (simp add: main_def setup_sites_step run_steps_neg cong: sum.case_cong)
qed

text \<open>Interval 0 and interval -5 on the two-site scenario.\<close>

theorem interval_not_validated_witness:
  "main (demo_args\<lparr>step := 0\<rparr>) demo_env = Inl ZeroDivisionError \<and>
   main (demo_args\<lparr>step := - 5\<rparr>) demo_env = main (demo_args\<lparr>step := 5\<rparr>) demo_env"
proof -
  have s: "setup_sites (demo_args\<lparr>step := 0\<rparr>) demo_env =
      Inr ([(''0'', (3, 10)), (''1'', (6, 2))], [(''0'', 3, 10), (''1'', 6, 2)])"
    by (simp add: setup_sites_def demo_args_def demo_env_def truthy_str_def truthy_int_def
          py_int_def randint_def poi_add_def str.simps digit_char_def char_of_eq_iff
          Let_def upt_conv_Cons)
  have "step (demo_args\<lparr>step := 0\<rparr>) = 0 \<and> 0 \<le> time (demo_args\<lparr>step := 0\<rparr>)"
    by (simp add: demo_args_def)
  with s interval_not_validated [where a = "demo_args\<lparr>step := 0\<rparr>" and e = demo_env
      and r = "([(''0'', (3, 10)), (''1'', (6, 2))], [(''0'', 3, 10), (''1'', 6, 2)])"]
  have a: "main (demo_args\<lparr>step := 0\<rparr>) demo_env = Inl ZeroDivisionError"
    by blast
  have "step (demo_args\<lparr>step := - 5\<rparr>) < 0" by simp
  with interval_not_validated [where a = "demo_args\<lparr>step := - 5\<rparr>" and e = demo_env]
  have "main (demo_args\<lparr>step := - 5\<rparr>) demo_env =
        main (demo_args\<lparr>step := - 5\<rparr>\<lparr>step := - step (demo_args\<lparr>step := - 5\<rparr>)\<rparr>) demo_env"
    by blast
  then have b: "main (demo_args\<lparr>step := - 5\<rparr>) demo_env = main (demo_args\<lparr>step := 5\<rparr>) demo_env"
    by simp
  from a b show ?thesis by blast
qed

text \<open>
  Against claim C6 as stated: with interval 0 the registry is built without an error and
  the failure is the \<open>ZeroDivisionError\<close> of the loop; with interval -180 the run
  completes.
\<close>

theorem zero_interval_fails_inside_loop:
  "step (demo_args\<lparr>step := 0\<rparr>) \<le> 0 \<and>
   setup_sites (demo_args\<lparr>step := 0\<rparr>) demo_env =
     Inr ([(''0'', (3, 10)), (''1'', (6, 2))], [(''0'', 3, 10), (''1'', 6, 2)]) \<and>
   main (demo_args\<lparr>step := 0\<rparr>) demo_env = Inl ZeroDivisionError \<and>
   step (demo_args\<lparr>step := - 180\<rparr>) \<le> 0 \<and>
   main (demo_args\<lparr>step := - 180\<rparr>) demo_env =
     Inr (init_state, [(''0'', 3, 10), (''1'', 6, 2)])"
  by (simp add: main_def setup_sites_def demo_args_def demo_env_def truthy_str_def truthy_int_def
      py_int_def randint_def poi_add_def str.simps digit_char_def char_of_eq_iff Let_def
      loop_body_def upt_conv_Cons reports_def delete_vehicles_def init_state_def
      write_positions_def)

text \<open>
  Claim C7, as amended. \<open>main\<close> fails with the \<open>TypeError\<close> of the setup (the
  specification's configuration error), before the loop, when neither a site file nor a
  site count is supplied, and when a site file is supplied without the network file.
  When a site file and the network file are supplied the registry is built from the
  file, whatever the site count is: a count supplied next to a file is ignored.
\<close>

theorem site_source_errors:
  "(\<not> truthy_str (input a) \<and> \<not> truthy_int (cell_sites a) \<longrightarrow>
      setup_sites a e = Inl (TypeError msg_source) \<and> main a e = Inl (TypeError msg_source)) \<and>
   (truthy_str (input a) \<and> sumo_net a = None \<longrightarrow>
      setup_sites a e = Inl (TypeError msg_net) \<and> main a e = Inl (TypeError msg_net)) \<and>
   (truthy_str (input a) \<and> sumo_net a = Some net \<longrightarrow>
      setup_sites a e =
        Inr (add_file_sites (convertLonLat2XY e net) (read_csv e (the (input a)))
               (loaded_pois e), []))"
  by (simp add: setup_sites_def main_def)

text \<open>No source; a file without network; a file with network and the count 2.\<close>

theorem site_source_errors_witness:
  "setup_sites (demo_args\<lparr>cell_sites := None\<rparr>) demo_env = Inl (TypeError msg_source) \<and>
   main (demo_args\<lparr>cell_sites := None\<rparr>) demo_env = Inl (TypeError msg_source) \<and>
   main (demo_args\<lparr>input := Some ''sites.csv''\<rparr>) demo_env = Inl (TypeError msg_net) \<and>
   setup_sites (demo_args\<lparr>input := Some ''sites.csv'', sumo_net := Some ''osm.net.xml''\<rparr>) demo_env
     = Inr ([(''a'', (1, 2))], [])"
proof -
  have 1: "\<not> truthy_str (input (demo_args\<lparr>cell_sites := None\<rparr>)) \<and>
           \<not> truthy_int (cell_sites (demo_args\<lparr>cell_sites := None\<rparr>))"
    by (simp add: demo_args_def truthy_str_def truthy_int_def)
  have 2: "truthy_str (input (demo_args\<lparr>input := Some ''sites.csv''\<rparr>)) \<and>
           sumo_net (demo_args\<lparr>input := Some ''sites.csv''\<rparr>) = None"
    by (simp add: demo_args_def truthy_str_def)
  have 3: "truthy_str (input (demo_args\<lparr>input := Some ''sites.csv'', sumo_net := Some ''osm.net.xml''\<rparr>)) \<and>
           sumo_net (demo_args\<lparr>input := Some ''sites.csv'', sumo_net := Some ''osm.net.xml''\<rparr>)
             = Some ''osm.net.xml''"
    by (simp add: demo_args_def truthy_str_def)
  from 1 site_source_errors [where a = "demo_args\<lparr>cell_sites := None\<rparr>" and e = demo_env]
  have a: "setup_sites (demo_args\<lparr>cell_sites := None\<rparr>) demo_env = Inl (TypeError msg_source)"
    "main (demo_args\<lparr>cell_sites := None\<rparr>) demo_env = Inl (TypeError msg_source)"
    by blast+
  from 2 site_source_errors [where a = "demo_args\<lparr>input := Some ''sites.csv''\<rparr>" and e = demo_env]
  have b: "main (demo_args\<lparr>input := Some ''sites.csv''\<rparr>) demo_env = Inl (TypeError msg_net)"
    by blast
  from 3 site_source_errors
    [where a = "demo_args\<lparr>input := Some ''sites.csv'', sumo_net := Some ''osm.net.xml''\<rparr>"
       and e = demo_env and net = "''osm.net.xml''"]
  have "setup_sites (demo_args\<lparr>input := Some ''sites.csv'', sumo_net := Some ''osm.net.xml''\<rparr>) demo_env
     = Inr (add_file_sites (convertLonLat2XY demo_env ''osm.net.xml'')
              (read_csv demo_env
                 (the (input (demo_args\<lparr>input := Some ''sites.csv'', sumo_net := Some ''osm.net.xml''\<rparr>))))
              (loaded_pois demo_env), [])"
    by blast
  then have c: "setup_sites (demo_args\<lparr>input := Some ''sites.csv'', sumo_net := Some ''osm.net.xml''\<rparr>) demo_env
     = Inr ([(''a'', (1, 2))], [])"
    by (simp add: demo_env_def poi_add_def)
  from a b c show ?thesis by blast
qed

text \<open>
  Against claim C7 as stated: with both a site file and the count 2 supplied, the run
  completes without an error.
\<close>

theorem conflicting_sources_accepted:
  "input (demo_args\<lparr>input := Some ''sites.csv'', sumo_net := Some ''osm.net.xml''\<rparr>)
     = Some ''sites.csv'' \<and>
   cell_sites (demo_args\<lparr>input := Some ''sites.csv'', sumo_net := Some ''osm.net.xml''\<rparr>) = Some 2 \<and>
   main (demo_args\<lparr>input := Some ''sites.csv'', sumo_net := Some ''osm.net.xml''\<rparr>) demo_env
     = Inr (init_state, [])"
  by (simp add: main_def setup_sites_def demo_args_def demo_env_def truthy_str_def
      poi_add_def loop_body_def upt_conv_Cons reports_def delete_vehicles_def init_state_def
      write_positions_def Let_def)

text \<open>
  Claim C10. With no site file and the site count 0, the setup raises the error of the
  missing site source, as it does when the count is absent; it does not return a
  registry without generated sites.
\<close>

theorem zero_count_is_no_source:
  assumes "\<not> truthy_str (input a)" and "cell_sites a = Some 0"
  shows "setup_sites a e = Inl (TypeError msg_source) \<and>
         main a e = Inl (TypeError msg_source) \<and>
         setup_sites a e = setup_sites (a\<lparr>cell_sites := None\<rparr>) e \<and>
         setup_sites a e \<noteq> Inr (loaded_pois e, [])"
  using assms by (simp add: setup_sites_def main_def truthy_int_def)

text \<open>The two-site scenario with the count set to 0.\<close>

theorem zero_count_is_no_source_witness:
  "\<not> truthy_str (input (demo_args\<lparr>cell_sites := Some 0\<rparr>)) \<and>
   cell_sites (demo_args\<lparr>cell_sites := Some 0\<rparr>) = Some 0 \<and>
   main (demo_args\<lparr>cell_sites := Some 0\<rparr>) demo_env = Inl (TypeError msg_source)"
proof -
  have 1: "\<not> truthy_str (input (demo_args\<lparr>cell_sites := Some 0\<rparr>))"
    by (simp add: demo_args_def truthy_str_def)
  have 2: "cell_sites (demo_args\<lparr>cell_sites := Some 0\<rparr>) = Some 0"
    by simp
  from zero_count_is_no_source [OF 1 2, where e = demo_env] 1 2 show ?thesis by blast
qed

section \<open>Synthetic sites\<close>


text \<open>
  Claim C8, as amended. With no site file, a site count \<open>N \<ge> 1\<close> and a network boundary
  whose lower corner is not beyond its upper corner, the setup succeeds and writes
  exactly \<open>N\<close> rows, with the ids \<open>str(0)\<close> to \<open>str(N-1)\<close>, to the site-position file;
  when the engine holds no marker of its own the registry consists of exactly these
  \<open>N\<close> sites at the written coordinates. The coordinates are integers between the
  corners of the boundary truncated toward zero; they are inside the boundary itself
  when no coordinate of the lower corner is a positive non-integer and no coordinate
  of the upper corner is a negative non-integer.
\<close>

theorem synthetic_sites:
  assumes "\<not> truthy_str (input a)" and "cell_sites a = Some N" and "1 \<le> N"
    and "fst (fst (getNetBoundary e)) \<le> fst (snd (getNetBoundary e))"
    and "snd (fst (getNetBoundary e)) \<le> snd (snd (getNetBoundary e))"
  shows "\<exists>poi_pos sites_pos.
      setup_sites a e = Inr (poi_pos, sites_pos) \<and>
      length sites_pos = nat N \<and>
      map fst sites_pos = map str [0 ..< nat N] \<and>
      (\<forall>(ident, x, y) \<in> set sites_pos.
         py_int (fst (fst (getNetBoundary e))) \<le> x \<and> x \<le> py_int (fst (snd (getNetBoundary e))) \<and>
         py_int (snd (fst (getNetBoundary e))) \<le> y \<and> y \<le> py_int (snd (snd (getNetBoundary e)))) \<and>
      (loaded_pois e = [] \<longrightarrow>
         poi_pos = map (\<lambda>(ident, x, y). (ident, (real_of_int x, real_of_int y))) sites_pos) \<and>
      ((fst (fst (getNetBoundary e)) \<le> 0 \<or> fst (fst (getNetBoundary e)) \<in> \<int>) \<and>
       (snd (fst (getNetBoundary e)) \<le> 0 \<or> snd (fst (getNetBoundary e)) \<in> \<int>) \<and>
       (0 \<le> fst (snd (getNetBoundary e)) \<or> fst (snd (getNetBoundary e)) \<in> \<int>) \<and>
       (0 \<le> snd (snd (getNetBoundary e)) \<or> snd (snd (getNetBoundary e)) \<in> \<int>) \<longrightarrow>
       (\<forall>(ident, x, y) \<in> set sites_pos.
          fst (fst (getNetBoundary e)) \<le> real_of_int x \<and>
          real_of_int x \<le> fst (snd (getNetBoundary e)) \<and>
          snd (fst (getNetBoundary e)) \<le> real_of_int y \<and>
          real_of_int y \<le> snd (snd (getNetBoundary e))))"
proof -
  let ?xl = "fst (fst (getNetBoundary e))" and ?yl = "snd (fst (getNetBoundary e))"
  let ?xu = "fst (snd (getNetBoundary e))" and ?yu = "snd (snd (getNetBoundary e))"
  from assms(4) have rx: "py_int ?xl \<le> py_int ?xu" by (rule py_int_mono)
  from assms(5) have ry: "py_int ?yl \<le> py_int ?yu" by (rule py_int_mono)
  from add_random_sites_rows [OF rx ry, of "random_draw e" "[0 ..< nat N]" "loaded_pois e" "[]"]
  obtain pois rows where
    r: "add_random_sites (random_draw e) (py_int ?xl) (py_int ?xu) (py_int ?yl) (py_int ?yu)
          [0 ..< nat N] (loaded_pois e, []) = Inr (pois, rows)"
    "map fst rows = map str [0 ..< nat N]"
    "\<forall>(ident, x, y) \<in> set rows.
       py_int ?xl \<le> x \<and> x \<le> py_int ?xu \<and> py_int ?yl \<le> y \<and> y \<le> py_int ?yu"
    "distinct [0 ..< nat N] \<and> str ` set [0 ..< nat N] \<inter> fst ` set (loaded_pois e) = {} \<longrightarrow>
       pois = loaded_pois e @ map (\<lambda>(ident, x, y). (ident, (real_of_int x, real_of_int y))) rows"
    by auto
  from assms(1-3) r(1) have s: "setup_sites a e = Inr (pois, rows)"
    by (simp add: setup_sites_def truthy_int_def Let_def)
  from r(2) have "length (map fst rows) = length (map str [0 ..< nat N])" by simp
  then have len: "length rows = nat N" by simp
  from r(4) have reg: "loaded_pois e = [] \<longrightarrow>
      pois = map (\<lambda>(ident, x, y). (ident, (real_of_int x, real_of_int y))) rows"
    by simp
  have inside: "\<forall>(ident, x, y) \<in> set rows.
          ?xl \<le> real_of_int x \<and> real_of_int x \<le> ?xu \<and> ?yl \<le> real_of_int y \<and> real_of_int y \<le> ?yu"
    if c: "(?xl \<le> 0 \<or> ?xl \<in> \<int>) \<and> (?yl \<le> 0 \<or> ?yl \<in> \<int>) \<and>
           (0 \<le> ?xu \<or> ?xu \<in> \<int>) \<and> (0 \<le> ?yu \<or> ?yu \<in> \<int>)"
  proof -
    from c have b: "?xl \<le> real_of_int (py_int ?xl)" "?yl \<le> real_of_int (py_int ?yl)"
      "real_of_int (py_int ?xu) \<le> ?xu" "real_of_int (py_int ?yu) \<le> ?yu"
      by (simp_all add: py_int_lower py_int_upper)
    show ?thesis
    proof (intro ballI, clarify)
      fix ident x y assume "(ident, x, y) \<in> set rows"
      with r(3) have "py_int ?xl \<le> x" "x \<le> py_int ?xu" "py_int ?yl \<le> y" "y \<le> py_int ?yu"
        by auto
      then have "real_of_int (py_int ?xl) \<le> real_of_int x" "real_of_int x \<le> real_of_int (py_int ?xu)"
        "real_of_int (py_int ?yl) \<le> real_of_int y" "real_of_int y \<le> real_of_int (py_int ?yu)"
        by simp_all
      with b show "?xl \<le> real_of_int x \<and> real_of_int x \<le> ?xu \<and>
                   ?yl \<le> real_of_int y \<and> real_of_int y \<le> ?yu"
        by linarith
    qed
  qed
  from s len r(2) r(3) reg inside show ?thesis by blast
qed

text \<open>Two sites in the network of 10 by 10.\<close>

theorem synthetic_sites_witness:
  "setup_sites demo_args demo_env =
     Inr ([(''0'', (3, 10)), (''1'', (6, 2))], [(''0'', 3, 10), (''1'', 6, 2)]) \<and>
   (\<exists>poi_pos sites_pos. setup_sites demo_args demo_env = Inr (poi_pos, sites_pos) \<and>
      length sites_pos = 2 \<and>
      poi_pos = map (\<lambda>(ident, x, y). (ident, (real_of_int x, real_of_int y))) sites_pos)"
proof -
  have h: "\<not> truthy_str (input demo_args)" "cell_sites demo_args = Some 2" "1 \<le> (2::int)"
    "fst (fst (getNetBoundary demo_env)) \<le> fst (snd (getNetBoundary demo_env))"
    "snd (fst (getNetBoundary demo_env)) \<le> snd (snd (getNetBoundary demo_env))"
    by (simp_all add: demo_args_def demo_env_def truthy_str_def)
  have l: "loaded_pois demo_env = []"
    by (simp add: demo_env_def)
  from synthetic_sites [OF h] l
  have "\<exists>poi_pos sites_pos. setup_sites demo_args demo_env = Inr (poi_pos, sites_pos) \<and>
      length sites_pos = 2 \<and>
      poi_pos = map (\<lambda>(ident, x, y). (ident, (real_of_int x, real_of_int y))) sites_pos"
    by auto
  moreover have "setup_sites demo_args demo_env =
     Inr ([(''0'', (3, 10)), (''1'', (6, 2))], [(''0'', 3, 10), (''1'', 6, 2)])"
    by (simp add: setup_sites_def demo_args_def demo_env_def truthy_str_def truthy_int_def
          py_int_def randint_def poi_add_def str.simps digit_char_def char_of_eq_iff
          Let_def upt_conv_Cons)
  ultimately show ?thesis by blast
qed

text \<open>
  Against claim C8 as stated: with the boundary from \<open>(0.5, 0)\<close> to \<open>(10, 10)\<close> the
  lower bound of \<open>randint\<close> is \<open>int(0.5) = 0\<close>, and a draw of 0 places the site at
  \<open>x = 0\<close>, left of the boundary.
\<close>

theorem site_left_of_boundary:
  "cell_sites (demo_args\<lparr>cell_sites := Some 1\<rparr>) = Some 1 \<and>
   getNetBoundary (demo_env\<lparr>getNetBoundary := ((1 / 2, 0), (10, 10)), random_draw := (\<lambda>k. 0)\<rparr>)
     = ((1 / 2, 0), (10, 10)) \<and>
   setup_sites (demo_args\<lparr>cell_sites := Some 1\<rparr>)
     (demo_env\<lparr>getNetBoundary := ((1 / 2, 0), (10, 10)), random_draw := (\<lambda>k. 0)\<rparr>)
     = Inr ([(''0'', (0, 0))], [(''0'', 0, 0)]) \<and>
   real_of_int 0 < (1 / 2 :: real)"
  by (simp add: setup_sites_def demo_args_def demo_env_def truthy_str_def truthy_int_def
        py_int_def randint_def poi_add_def str.simps digit_char_def char_of_eq_iff
        Let_def upt_conv_Cons)

end
